theory Spec2Isabelle
  imports Main
begin

section \<open>The Quint IR read by the flattener and the alias inliner\<close>

text \<open>
  Identifiers of IR nodes are JavaScript bigints, modelled as \<open>int\<close>. A type node carries
  an optional id (\<open>id?: bigint\<close>). A \<open>Row\<close> is the field list of a tuple, record or
  union alternative.
\<close>

datatype QuintType =
    TBool "int option"
  | TInt "int option"
  | TStr "int option"
  | TVar string "int option"
  | TConst string "int option"
  | TSet QuintType "int option"
  | TList QuintType "int option"
  | TFun QuintType QuintType "int option"
  | TOper "QuintType list" QuintType "int option"
  | TTup Row "int option"
  | TRec Row "int option"
  | TUnion string "(string \<times> Row) list" "int option"
and Row =
    RowFields "(string \<times> QuintType) list" Row
  | RowVar string
  | RowEmpty

datatype QuintLambdaParameter = Param (param_name: string) (param_id: int)

text \<open>
  Expressions. \<open>ExLambda params qualifier body id\<close>; \<open>ExLet opdef body id\<close>.
  An operator definition is \<open>OpDef name qualifier expr typeAnnotation id\<close>.
\<close>

datatype QuintEx =
    ExName string int
  | ExBool bool int
  | ExInt int int
  | ExStr string int
  | ExApp string "QuintEx list" int
  | ExLambda "QuintLambdaParameter list" string QuintEx int
  | ExLet QuintOpDef QuintEx int
and QuintOpDef =
    OpDef string string QuintEx "QuintType option" int

text \<open>
  Declarations: \<open>DefOp opdef\<close>, \<open>DefConst name typeAnnotation id\<close>,
  \<open>DefVar name typeAnnotation id\<close>, \<open>DefAssume name assumption id\<close>,
  \<open>DefTypeDef name type id\<close>, \<open>DefImport name path id\<close> and
  \<open>DefInstance name protoName overrides id\<close>.
\<close>

datatype QuintDef =
    DefOp QuintOpDef
  | DefConst string QuintType int
  | DefVar string QuintType int
  | DefAssume string QuintEx int
  | DefTypeDef string "QuintType option" int
  | DefImport string string int
  | DefInstance string string "(QuintLambdaParameter \<times> QuintEx) list" int

record QuintModule =
  mod_name :: string
  mod_defs :: "QuintDef list"
  mod_id :: int

text \<open>
  A lookup table maps the id of a reference to its definition. The flattener and the
  inliner read the definition's kind and its optional type annotation. A JavaScript
  \<open>Map\<close> is an association list in insertion order with \<open>map_of\<close> as \<open>get\<close>.
\<close>

record LookupDefinition =
  ld_kind :: string
  ld_name :: string
  ld_typeAnnotation :: "QuintType option"

type_synonym LookupTable = "(int \<times> LookupDefinition) list"

fun opdef_name :: "QuintOpDef \<Rightarrow> string" where
  "opdef_name (OpDef n q e t i) = n"

fun opdef_id :: "QuintOpDef \<Rightarrow> int" where
  "opdef_id (OpDef n q e t i) = i"

fun def_name :: "QuintDef \<Rightarrow> string" where
  "def_name (DefOp d) = opdef_name d"
| "def_name (DefConst n t i) = n"
| "def_name (DefVar n t i) = n"
| "def_name (DefAssume n e i) = n"
| "def_name (DefTypeDef n t i) = n"
| "def_name (DefImport n p i) = n"
| "def_name (DefInstance n p os i) = n"


fun def_id :: "QuintDef \<Rightarrow> int" where
  "def_id (DefOp d) = opdef_id d"
| "def_id (DefConst n t i) = i"
| "def_id (DefVar n t i) = i"
| "def_id (DefAssume n e i) = i"
| "def_id (DefTypeDef n t i) = i"
| "def_id (DefImport n p i) = i"
| "def_id (DefInstance n p os i) = i"

fun is_instance :: "QuintDef \<Rightarrow> bool" where
  "is_instance (DefInstance n p os i) = True"
| "is_instance d = False"

text \<open>\<open>isAnnotatedDef\<close>: the declaration has a \<open>typeAnnotation\<close> that is not undefined.\<close>

fun typeAnnotation :: "QuintDef \<Rightarrow> QuintType option" where
  "typeAnnotation (DefOp (OpDef n q e t i)) = t"
| "typeAnnotation (DefConst n t i) = Some t"
| "typeAnnotation (DefVar n t i) = Some t"
| "typeAnnotation d = None"

definition isAnnotatedDef :: "QuintDef \<Rightarrow> bool" where
  "isAnnotatedDef d = (typeAnnotation d \<noteq> None)"

text \<open>The object spread \<open>{ ...newDef, typeAnnotation: type }\<close>.\<close>

fun withTypeAnnotation :: "QuintDef \<Rightarrow> QuintType \<Rightarrow> QuintDef" where
  "withTypeAnnotation (DefOp (OpDef n q e t i)) ty = DefOp (OpDef n q e (Some ty) i)"
| "withTypeAnnotation (DefConst n t i) ty = DefConst n ty i"
| "withTypeAnnotation (DefVar n t i) ty = DefVar n ty i"
| "withTypeAnnotation d ty = d"

section \<open>The Builtin Registry\<close>

text \<open>
  The identifiers of \<open>defaultDefinitions()\<close>, in the order of the source. Every entry
  has kind \<open>def\<close>, no reference and no scope.
\<close>

definition builtinIdentifiers :: "string list" where
  "builtinIdentifiers =
    [''not'', ''and'', ''or'', ''iff'', ''implies'', ''exists'', ''guess'', ''forall'',
     ''in'', ''notin'', ''union'', ''contains'', ''fold'', ''intersect'', ''exclude'',
     ''subseteq'', ''map'', ''applyTo'', ''filter'', ''powerset'', ''flatten'',
     ''allLists'', ''chooseSome'', ''isFinite'', ''size'', ''get'', ''put'', ''keys'',
     ''mapBy'', ''setToMap'', ''setOfMaps'', ''update'', ''updateAs'', ''fields'',
     ''with'', ''tuples'', ''append'', ''concat'', ''head'', ''tail'', ''length'', ''nth'',
     ''indices'', ''replaceAt'', ''slice'', ''select'', ''foldl'', ''foldr'', ''to'',
     ''always'', ''eventually'', ''next'', ''shift'', ''stutter'', ''nostutter'',
     ''enabled'', ''weakFair'', ''strongFair'', ''guarantees'', ''existsConst'',
     ''forallConst'', ''chooseConst'', ''Bool'', ''Int'', ''Nat'', ''set'', ''mapOf'',
     ''list'', ''range'', ''tup'', ''rec'', ''igt'', ''ilt'', ''igte'', ''ilte'', ''iadd'',
     ''isub'', ''iuminus'', ''imul'', ''idiv'', ''imod'', ''ipow'', ''actionAll'',
     ''actionAny'', ''field'', ''fieldNames'', ''item'', ''match'', ''assign'', ''of'',
     ''eq'', ''neq'', ''ite'', ''cross'', ''difference'']"

section \<open>The flattener (flattening.ts)\<close>

datatype error =
    MissingDefinition int string
  | InstanceNotFlattened string
  | KindNotPreserved
  | TypeError

record FlatteningContext =
  idGenerator :: int
  table :: LookupTable
  builtinNames :: "string list"

text \<open>
  The id generator is an object with one mutable counter; the model keeps the counter
  in the context and returns the updated context. \<open>nextId\<close> increments the counter
  and returns the new value. The generator's module is not part of the sources at
  hand: \<open>newIdGenerator\<close> takes the counter it starts from when it is called with
  \<open>undefined\<close> as the parameter \<open>dflt\<close>.
\<close>

definition newIdGenerator :: "int \<Rightarrow> int option \<Rightarrow> int" where
  "newIdGenerator dflt initialId = (case initialId of None \<Rightarrow> dflt | Some i \<Rightarrow> i)"

definition nextId :: "FlatteningContext \<Rightarrow> int \<times> FlatteningContext" where
  "nextId ctx = (idGenerator ctx + 1, ctx\<lparr>idGenerator := idGenerator ctx + 1\<rparr>)"

text \<open>Template string \<open>`${name}::${x}`\<close>.\<close>

definition namespaced :: "string \<Rightarrow> string \<Rightarrow> string" where
  "namespaced name x = name @ ''::'' @ x"

text \<open>
  Reading index \<open>i\<close> of a JavaScript array: \<open>undefined\<close> unless \<open>i\<close> is one of
  \<open>0 .. length - 1\<close>.
\<close>

definition js_index :: "'a list \<Rightarrow> int \<Rightarrow> 'a option" where
  "js_index xs i = (if 0 \<le> i \<and> i < int (length xs) then Some (xs ! nat i) else None)"

text \<open>Running a list of state transformers in order, as \<open>Array.map\<close> does.\<close>

fun sequenceS :: "('s \<Rightarrow> 'a \<times> 's) list \<Rightarrow> 's \<Rightarrow> 'a list \<times> 's" where
  "sequenceS [] s = ([], s)"
| "sequenceS (m # ms) s =
     (case m s of (x, s1) \<Rightarrow> (case sequenceS ms s1 of (xs, s2) \<Rightarrow> (x # xs, s2)))"

text \<open>The same where a step can throw: the first exception ends the run.\<close>

fun sequenceE :: "('s \<Rightarrow> 'e + 'a \<times> 's) list \<Rightarrow> 's \<Rightarrow> 'e + 'a list \<times> 's" where
  "sequenceE [] s = Inr ([], s)"
| "sequenceE (m # ms) s =
     (case m s of
        Inl e \<Rightarrow> Inl e
      | Inr (x, s1) \<Rightarrow>
          (case sequenceE ms s1 of
             Inl e \<Rightarrow> Inl e
           | Inr (xs, s2) \<Rightarrow> Inr (x # xs, s2)))"

primrec addNamespaceToType :: "string \<Rightarrow> QuintType \<Rightarrow> FlatteningContext \<Rightarrow> QuintType \<times> FlatteningContext"
  and addNamespaceToRow :: "string \<Rightarrow> Row \<Rightarrow> FlatteningContext \<Rightarrow> Row \<times> FlatteningContext" where
  "addNamespaceToType name (TBool i) = (\<lambda>ctx. case nextId ctx of (i', ctx1) \<Rightarrow> (TBool (Some i'), ctx1))"
| "addNamespaceToType name (TInt i) = (\<lambda>ctx. case nextId ctx of (i', ctx1) \<Rightarrow> (TInt (Some i'), ctx1))"
| "addNamespaceToType name (TStr i) = (\<lambda>ctx. case nextId ctx of (i', ctx1) \<Rightarrow> (TStr (Some i'), ctx1))"
| "addNamespaceToType name (TVar n i) = (\<lambda>ctx. case nextId ctx of (i', ctx1) \<Rightarrow> (TVar n (Some i'), ctx1))"
| "addNamespaceToType name (TConst n i) =
     (\<lambda>ctx. case nextId ctx of (i', ctx1) \<Rightarrow> (TConst (namespaced name n) (Some i'), ctx1))"
| "addNamespaceToType name (TSet elem i) =
     (\<lambda>ctx. case nextId ctx of (i', ctx1) \<Rightarrow>
        (case addNamespaceToType name elem ctx1 of (elem', ctx2) \<Rightarrow> (TSet elem' (Some i'), ctx2)))"
| "addNamespaceToType name (TList elem i) =
     (\<lambda>ctx. case nextId ctx of (i', ctx1) \<Rightarrow>
        (case addNamespaceToType name elem ctx1 of (elem', ctx2) \<Rightarrow> (TList elem' (Some i'), ctx2)))"
| "addNamespaceToType name (TFun arg res i) =
     (\<lambda>ctx. case nextId ctx of (i', ctx1) \<Rightarrow>
        (case addNamespaceToType name arg ctx1 of (arg', ctx2) \<Rightarrow>
           (case addNamespaceToType name res ctx2 of (res', ctx3) \<Rightarrow>
              (TFun arg' res' (Some i'), ctx3))))"
| "addNamespaceToType name (TOper args res i) =
     (\<lambda>ctx. case nextId ctx of (i', ctx1) \<Rightarrow>
        (case sequenceS (map (addNamespaceToType name) args) ctx1 of (args', ctx2) \<Rightarrow>
           (case addNamespaceToType name res ctx2 of (res', ctx3) \<Rightarrow>
              (TOper args' res' (Some i'), ctx3))))"
| "addNamespaceToType name (TTup fs i) =
     (\<lambda>ctx. case nextId ctx of (i', ctx1) \<Rightarrow>
        (case addNamespaceToRow name fs ctx1 of (fs', ctx2) \<Rightarrow> (TTup fs' (Some i'), ctx2)))"
| "addNamespaceToType name (TRec fs i) =
     (\<lambda>ctx. case nextId ctx of (i', ctx1) \<Rightarrow>
        (case addNamespaceToRow name fs ctx1 of (fs', ctx2) \<Rightarrow> (TRec fs' (Some i'), ctx2)))"
| "addNamespaceToType name (TUnion tag records i) =
     (\<lambda>ctx. case nextId ctx of (i', ctx1) \<Rightarrow>
        (case sequenceS
                (map (\<lambda>record ctx'. case snd record ctx' of (fs, ctx'') \<Rightarrow> ((fst record, fs), ctx''))
                   (map (map_prod (\<lambda>tagValue. tagValue) (addNamespaceToRow name)) records)) ctx1 of
           (records', ctx2) \<Rightarrow> (TUnion tag records' (Some i'), ctx2)))"
| "addNamespaceToRow name (RowFields fs other) =
     (\<lambda>ctx. case sequenceS
                   (map (\<lambda>field ctx'. case snd field ctx' of (ft, ctx'') \<Rightarrow> ((fst field, ft), ctx''))
                      (map (map_prod (\<lambda>fieldName. fieldName) (addNamespaceToType name)) fs)) ctx of
        (fs', ctx1) \<Rightarrow> (RowFields fs' other, ctx1))"
| "addNamespaceToRow name (RowVar n) = (\<lambda>ctx. (RowVar n, ctx))"
| "addNamespaceToRow name RowEmpty = (\<lambda>ctx. (RowEmpty, ctx))"

text \<open>
  \<open>shouldAddNamespace\<close>: a built-in name is never rewritten and is not looked up; any
  other reference must have a table entry, and is rewritten unless the entry is a
  lambda parameter.
\<close>

definition shouldAddNamespace :: "FlatteningContext \<Rightarrow> string \<Rightarrow> int \<Rightarrow> error + bool" where
  "shouldAddNamespace ctx name i =
     (if name \<in> set (builtinNames ctx) then Inr False
      else (case map_of (table ctx) i of
              None \<Rightarrow> Inl (MissingDefinition i name)
            | Some d \<Rightarrow> if ld_kind d = ''param'' then Inr False else Inr True))"

text \<open>
  \<open>addNamespaceToExpr\<close> mints the node's id first, then decides the rewrite (which can
  throw), then visits the children from left to right. \<open>addNamespaceToOpDef\<close> rewrites
  the body before it mints the definition's id (the order of the object literal).
\<close>

primrec addNamespaceToExpr :: "string \<Rightarrow> QuintEx \<Rightarrow> FlatteningContext \<Rightarrow> error + QuintEx \<times> FlatteningContext"
  and addNamespaceToOpDef :: "string \<Rightarrow> QuintOpDef \<Rightarrow> FlatteningContext \<Rightarrow> error + QuintOpDef \<times> FlatteningContext" where
  "addNamespaceToExpr name (ExName n i) =
     (\<lambda>ctx. case nextId ctx of (i', ctx1) \<Rightarrow>
        (case shouldAddNamespace ctx1 n i of
           Inl e \<Rightarrow> Inl e
         | Inr b \<Rightarrow> Inr (ExName (if b then namespaced name n else n) i', ctx1)))"
| "addNamespaceToExpr name (ExBool v i) =
     (\<lambda>ctx. case nextId ctx of (i', ctx1) \<Rightarrow> Inr (ExBool v i', ctx1))"
| "addNamespaceToExpr name (ExInt v i) =
     (\<lambda>ctx. case nextId ctx of (i', ctx1) \<Rightarrow> Inr (ExInt v i', ctx1))"
| "addNamespaceToExpr name (ExStr v i) =
     (\<lambda>ctx. case nextId ctx of (i', ctx1) \<Rightarrow> Inr (ExStr v i', ctx1))"
| "addNamespaceToExpr name (ExApp opcode args i) =
     (\<lambda>ctx. case nextId ctx of (i', ctx1) \<Rightarrow>
        (case shouldAddNamespace ctx1 opcode i of
           Inl e \<Rightarrow> Inl e
         | Inr b \<Rightarrow>
             (case sequenceE (map (addNamespaceToExpr name) args) ctx1 of
                Inl e \<Rightarrow> Inl e
              | Inr (args', ctx2) \<Rightarrow>
                  Inr (ExApp (if b then namespaced name opcode else opcode) args' i', ctx2))))"
| "addNamespaceToExpr name (ExLambda params qualifier body i) =
     (\<lambda>ctx. case nextId ctx of (i', ctx1) \<Rightarrow>
        (case sequenceS
                (map (\<lambda>param ctx'. case nextId ctx' of (pid, ctx'') \<Rightarrow>
                        (Param (param_name param) pid, ctx'')) params) ctx1 of
           (params', ctx2) \<Rightarrow>
             (case addNamespaceToExpr name body ctx2 of
                Inl e \<Rightarrow> Inl e
              | Inr (body', ctx3) \<Rightarrow> Inr (ExLambda params' qualifier body' i', ctx3))))"
| "addNamespaceToExpr name (ExLet opdef body i) =
     (\<lambda>ctx. case nextId ctx of (i', ctx1) \<Rightarrow>
        (case addNamespaceToOpDef name opdef ctx1 of
           Inl e \<Rightarrow> Inl e
         | Inr (opdef', ctx2) \<Rightarrow>
             (case addNamespaceToExpr name body ctx2 of
                Inl e \<Rightarrow> Inl e
              | Inr (body', ctx3) \<Rightarrow> Inr (ExLet opdef' body' i', ctx3))))"
| "addNamespaceToOpDef name (OpDef n qualifier expr ann i) =
     (\<lambda>ctx. case addNamespaceToExpr name expr ctx of
        Inl e \<Rightarrow> Inl e
      | Inr (expr', ctx1) \<Rightarrow>
          (case nextId ctx1 of (i', ctx2) \<Rightarrow>
             Inr (OpDef (namespaced name n) qualifier expr' ann i', ctx2)))"

fun addNamespaceToDef :: "string \<Rightarrow> QuintDef \<Rightarrow> FlatteningContext \<Rightarrow> error + QuintDef \<times> FlatteningContext" where
  "addNamespaceToDef name (DefOp opdef) ctx =
     (case addNamespaceToOpDef name opdef ctx of
        Inl e \<Rightarrow> Inl e
      | Inr (opdef', ctx1) \<Rightarrow> Inr (DefOp opdef', ctx1))"
| "addNamespaceToDef name (DefAssume n assumption i) ctx =
     (case addNamespaceToExpr name assumption ctx of
        Inl e \<Rightarrow> Inl e
      | Inr (assumption', ctx1) \<Rightarrow>
          (case nextId ctx1 of (i', ctx2) \<Rightarrow>
             Inr (DefAssume (namespaced name n) assumption' i', ctx2)))"
| "addNamespaceToDef name (DefConst n ann i) ctx =
     (case nextId ctx of (i', ctx1) \<Rightarrow> Inr (DefConst (namespaced name n) ann i', ctx1))"
| "addNamespaceToDef name (DefVar n ann i) ctx =
     (case nextId ctx of (i', ctx1) \<Rightarrow> Inr (DefVar (namespaced name n) ann i', ctx1))"
| "addNamespaceToDef name (DefTypeDef n None i) ctx =
     (case nextId ctx of (i', ctx1) \<Rightarrow> Inr (DefTypeDef (namespaced name n) None i', ctx1))"
| "addNamespaceToDef name (DefTypeDef n (Some ty) i) ctx =
     (case addNamespaceToType name ty ctx of (ty', ctx1) \<Rightarrow>
        (case nextId ctx1 of (i', ctx2) \<Rightarrow>
           Inr (DefTypeDef (namespaced name n) (Some ty') i', ctx2)))"
| "addNamespaceToDef name (DefInstance n protoName overrides i) ctx =
     Inl (InstanceNotFlattened n)"
| "addNamespaceToDef name (DefImport n path i) ctx = Inr (DefImport n path i, ctx)"

text \<open>
  The loop over the overrides of one instance. \<open>table.get(param.id)!\<close> is not checked:
  reading \<open>typeAnnotation\<close> of \<open>undefined\<close> throws a TypeError. The override expression
  is kept as it is; the annotation of the overridden constant is re-namespaced before
  the new definition's id is minted.
\<close>

fun flattenOverrides :: "string \<Rightarrow> (QuintLambdaParameter \<times> QuintEx) list \<Rightarrow> QuintDef list \<Rightarrow>
    FlatteningContext \<Rightarrow> error + QuintDef list \<times> FlatteningContext" where
  "flattenOverrides name [] acc ctx = Inr (acc, ctx)"
| "flattenOverrides name ((param, expr) # rest) acc ctx =
     (case map_of (table ctx) (param_id param) of
        None \<Rightarrow> Inl TypeError
      | Some constDef \<Rightarrow>
          (case ld_typeAnnotation constDef of
             None \<Rightarrow>
               (case nextId ctx of (i', ctx1) \<Rightarrow>
                  flattenOverrides name rest
                    (acc @ [DefOp (OpDef (namespaced name (param_name param)) ''pureval'' expr None i')]) ctx1)
           | Some ty \<Rightarrow>
               (case addNamespaceToType name ty ctx of (ty', ctx1) \<Rightarrow>
                  (case nextId ctx1 of (i', ctx2) \<Rightarrow>
                     flattenOverrides name rest
                       (acc @ [DefOp (OpDef (namespaced name (param_name param)) ''pureval'' expr (Some ty') i')])
                       ctx2))))"

text \<open>
  The loop over the prototype's declarations. A declaration is skipped when the
  accumulator (everything emitted so far) already holds a declaration with the
  namespaced name.
\<close>

fun flattenProtoDefs :: "string \<Rightarrow> QuintDef list \<Rightarrow> QuintDef list \<Rightarrow>
    FlatteningContext \<Rightarrow> error + QuintDef list \<times> FlatteningContext" where
  "flattenProtoDefs name [] acc ctx = Inr (acc, ctx)"
| "flattenProtoDefs name (protoDef # rest) acc ctx =
     (if namespaced name (def_name protoDef) \<in> set (map def_name acc)
      then flattenProtoDefs name rest acc ctx
      else (case typeAnnotation protoDef of
              Some ann \<Rightarrow>
                (case addNamespaceToType name ann ctx of (ty, ctx1) \<Rightarrow>
                   (case addNamespaceToDef name protoDef ctx1 of
                      Inl e \<Rightarrow> Inl e
                    | Inr (newDef, ctx2) \<Rightarrow>
                        if \<not> isAnnotatedDef newDef then Inl KindNotPreserved
                        else flattenProtoDefs name rest (acc @ [withTypeAnnotation newDef ty]) ctx2))
            | None \<Rightarrow>
                (case addNamespaceToDef name protoDef ctx of
                   Inl e \<Rightarrow> Inl e
                 | Inr (newDef, ctx1) \<Rightarrow> flattenProtoDefs name rest (acc @ [newDef]) ctx1)))"

text \<open>
  The \<open>reduce\<close> over the module's declarations. For an instance the overrides are
  processed before \<open>protoModule.defs\<close> is read; \<open>modules.get(def.protoName)!\<close> is not
  checked, so an unknown prototype throws a TypeError there.
\<close>

fun flattenDefs :: "(string \<times> QuintModule) list \<Rightarrow> QuintDef list \<Rightarrow> QuintDef list \<Rightarrow>
    FlatteningContext \<Rightarrow> error + QuintDef list \<times> FlatteningContext" where
  "flattenDefs modules [] acc ctx = Inr (acc, ctx)"
| "flattenDefs modules (DefInstance n protoName overrides i # rest) acc ctx =
     (case flattenOverrides n overrides acc ctx of
        Inl e \<Rightarrow> Inl e
      | Inr (acc1, ctx1) \<Rightarrow>
          (case map_of modules protoName of
             None \<Rightarrow> Inl TypeError
           | Some protoModule \<Rightarrow>
               (case flattenProtoDefs n (mod_defs protoModule) acc1 ctx1 of
                  Inl e \<Rightarrow> Inl e
                | Inr (acc2, ctx2) \<Rightarrow> flattenDefs modules rest acc2 ctx2)))"
| "flattenDefs modules (d # rest) acc ctx = flattenDefs modules rest (acc @ [d]) ctx"

text \<open>
  Modelled from the spec: \<open>defaultValueDefinitions\<close> of the definitions collector the
  flattener imports is missing from the sources; the spec has one Builtin Registry,
  available in every module, and the flattener leaves references to its names untouched.
  The names are those of \<open>defaultDefinitions()\<close>.
\<close>

definition defaultValueDefinitions :: "string list" where
  "defaultValueDefinitions = builtinIdentifiers"

text \<open>
  \<open>flatten\<close>. The seed of the id generator is element \<open>[-1]\<close> of the sorted array of
  the module ids.
\<close>

definition lastId :: "(string \<times> QuintModule) list \<Rightarrow> int option" where
  "lastId modules = js_index (sort (map mod_id (map snd modules))) (- 1)"

definition flatten :: "int \<Rightarrow> QuintModule \<Rightarrow> LookupTable \<Rightarrow> (string \<times> QuintModule) list \<Rightarrow> error + QuintModule" where
  "flatten dflt m tbl modules =
     (let context = \<lparr> idGenerator = newIdGenerator dflt (lastId modules),
                      table = tbl,
                      builtinNames = defaultValueDefinitions \<rparr>
      in case flattenDefs modules (mod_defs m) [] context of
           Inl e \<Rightarrow> Inl e
         | Inr (newDefs, ctx') \<Rightarrow> Inr (m\<lparr> mod_defs := newDefs \<rparr>))"

subsection \<open>Example inputs of the flattener\<close>

text \<open>
  A prototype \<open>M\<close> with one constant \<open>a: int\<close> (type node 1, constant 2, module 3) and
  a module \<open>Main\<close> with the instance \<open>N = M(a = 5)\<close> (parameter 4, literal 5,
  instance 6, module 7). The table resolves the override parameter to the constant.
\<close>

definition ex_M :: QuintModule where
  "ex_M = \<lparr> mod_name = ''M'', mod_defs = [DefConst ''a'' (TInt (Some 1)) 2], mod_id = 3 \<rparr>"

definition ex_Main :: QuintModule where
  "ex_Main = \<lparr> mod_name = ''Main'',
      mod_defs = [DefInstance ''N'' ''M'' [(Param ''a'' 4, ExInt 5 5)] 6], mod_id = 7 \<rparr>"

definition ex_table :: LookupTable where
  "ex_table = [(4, \<lparr> ld_kind = ''const'', ld_name = ''a'', ld_typeAnnotation = Some (TInt (Some 1)) \<rparr>)]"

definition ex_modules :: "(string \<times> QuintModule) list" where
  "ex_modules = [(''M'', ex_M), (''Main'', ex_Main)]"

subsection \<open>Specification of the flattener\<close>

text \<open>
  The part of the context that no operation changes: the table and the built-in names.
\<close>

definition env :: "FlatteningContext \<Rightarrow> LookupTable \<times> string list" where
  "env c = (table c, builtinNames c)"



text \<open>
  A reference that makes \<open>shouldAddNamespace\<close> throw: its name is not a built-in and
  the table has no entry for its id.
\<close>

fun unresolved :: "LookupTable \<times> string list \<Rightarrow> string \<times> int \<Rightarrow> bool" where
  "unresolved (tbl, bn) (n, i) = (n \<notin> set bn \<and> map_of tbl i = None)"

text \<open>
  The result of a traversal that meets the references \<open>rs\<close> in this order: the error of
  the first unresolved reference, or a value and a context with the same table and
  built-in names.
\<close>

definition outcome :: "LookupTable \<times> string list \<Rightarrow> (string \<times> int) list \<Rightarrow>
    (error + 'a \<times> FlatteningContext) \<Rightarrow> bool" where
  "outcome E rs r =
     (case find (unresolved E) rs of
        Some (n, i) \<Rightarrow> r = Inl (MissingDefinition i n)
      | None \<Rightarrow> (\<exists>x c'. r = Inr (x, c') \<and> env c' = E))"



text \<open>
  Forgetting the node ids of types, expressions and declarations: two trees with the
  same image differ in their ids only.
\<close>

primrec erase_type :: "QuintType \<Rightarrow> QuintType"
  and erase_row :: "Row \<Rightarrow> Row" where
  "erase_type (TBool i) = TBool None"
| "erase_type (TInt i) = TInt None"
| "erase_type (TStr i) = TStr None"
| "erase_type (TVar n i) = TVar n None"
| "erase_type (TConst n i) = TConst n None"
| "erase_type (TSet elem i) = TSet (erase_type elem) None"
| "erase_type (TList elem i) = TList (erase_type elem) None"
| "erase_type (TFun arg res i) = TFun (erase_type arg) (erase_type res) None"
| "erase_type (TOper args res i) = TOper (map erase_type args) (erase_type res) None"
| "erase_type (TTup fs i) = TTup (erase_row fs) None"
| "erase_type (TRec fs i) = TRec (erase_row fs) None"
| "erase_type (TUnion tag records i) =
     TUnion tag (map (map_prod (\<lambda>tagValue. tagValue) erase_row) records) None"
| "erase_row (RowFields fs other) =
     RowFields (map (map_prod (\<lambda>fieldName. fieldName) erase_type) fs) (erase_row other)"
| "erase_row (RowVar n) = RowVar n"
| "erase_row RowEmpty = RowEmpty"

primrec erase_ex :: "QuintEx \<Rightarrow> QuintEx"
  and erase_opdef :: "QuintOpDef \<Rightarrow> QuintOpDef" where
  "erase_ex (ExName n i) = ExName n 0"
| "erase_ex (ExBool v i) = ExBool v 0"
| "erase_ex (ExInt v i) = ExInt v 0"
| "erase_ex (ExStr v i) = ExStr v 0"
| "erase_ex (ExApp opcode args i) = ExApp opcode (map erase_ex args) 0"
| "erase_ex (ExLambda params qualifier body i) =
     ExLambda (map (\<lambda>param. Param (param_name param) 0) params) qualifier (erase_ex body) 0"
| "erase_ex (ExLet opdef body i) = ExLet (erase_opdef opdef) (erase_ex body) 0"
| "erase_opdef (OpDef n qualifier expr ann i) =
     OpDef n qualifier (erase_ex expr) (map_option erase_type ann) 0"

fun erase_def :: "QuintDef \<Rightarrow> QuintDef" where
  "erase_def (DefOp opdef) = DefOp (erase_opdef opdef)"
| "erase_def (DefConst n ann i) = DefConst n (erase_type ann) 0"
| "erase_def (DefVar n ann i) = DefVar n (erase_type ann) 0"
| "erase_def (DefAssume n assumption i) = DefAssume n (erase_ex assumption) 0"
| "erase_def (DefTypeDef n ty i) = DefTypeDef n (map_option erase_type ty) 0"
| "erase_def (DefImport n path i) = DefImport n path 0"
| "erase_def (DefInstance n protoName overrides i) =
     DefInstance n protoName
       (map (\<lambda>(param, expr). (Param (param_name param) 0, erase_ex expr)) overrides) 0"













































section \<open>The definitions collector (definitionsCollector.ts)\<close>

text \<open>
  The collector stores the aliased type of a type declaration and never inspects it.
\<close>

type_synonym TntType = QuintType

record ValueDefinition =
  vd_kind :: string
  vd_identifier :: string
  vd_reference :: "int option"
  vd_scope :: "int option"

record TypeDefinition =
  td_identifier :: string
  td_type :: "TntType option"
  td_reference :: "int option"

record DefinitionTable =
  valueDefinitions :: "ValueDefinition list"
  typeDefinitions :: "TypeDefinition list"

definition emptyTable :: DefinitionTable where
  "emptyTable = \<lparr> valueDefinitions = [], typeDefinitions = [] \<rparr>"

text \<open>
  A \<open>DefinitionTable\<close> is a mutable object that several lookup tables can hold: the
  model keeps the objects in a heap (a list, an object's address is its index) and a
  lookup table (a JavaScript \<open>Map\<close>, in insertion order) maps an identifier to the
  address of its \<open>DefinitionTable\<close>.
\<close>

type_synonym CellTable = "(string \<times> nat) list"

text \<open>
  \<open>defaultDefinitions()\<close> allocates one \<open>DefinitionTable\<close> per built-in identifier and
  returns the map from the identifiers to them.
\<close>

definition builtinCells :: "DefinitionTable list" where
  "builtinCells =
     map (\<lambda>n. \<lparr> valueDefinitions =
                   [\<lparr> vd_kind = ''def'', vd_identifier = n, vd_reference = None, vd_scope = None \<rparr>],
                 typeDefinitions = [] \<rparr>) builtinIdentifiers"

definition defaultDefinitions :: CellTable where
  "defaultDefinitions = zip builtinIdentifiers [0 ..< length builtinIdentifiers]"

text \<open>
  The visitor. \<open>currentTable\<close> is a reference to a \<open>Map\<close> object: either the empty map
  the field is initialised with (\<open>None\<close>, its content is \<open>initialTable\<close>) or the map
  stored in \<open>tables\<close> under a module name (\<open>Some name\<close>); the visitor never holds a
  reference to any other map. \<open>visitorDefaults\<close> is the field \<open>defaultDefinitions\<close>,
  whose map is only read.
\<close>

record Visitor =
  heap :: "DefinitionTable list"
  tables :: "(string \<times> CellTable) list"
  initialTable :: CellTable
  currentModuleName :: string
  currentTable :: "string option"
  moduleStack :: "string list"
  scopeStack :: "int list"
  visitorDefaults :: CellTable

definition newVisitor :: Visitor where
  "newVisitor = \<lparr> heap = builtinCells, tables = [], initialTable = [],
                   currentModuleName = [], currentTable = None,
                   moduleStack = [], scopeStack = [],
                   visitorDefaults = defaultDefinitions \<rparr>"

text \<open>\<open>Map.set\<close>: the value of an existing key is replaced in place, a new key is appended.\<close>

fun map_set :: "'k \<Rightarrow> 'v \<Rightarrow> ('k \<times> 'v) list \<Rightarrow> ('k \<times> 'v) list" where
  "map_set k v [] = [(k, v)]"
| "map_set k v (p # ps) = (if fst p = k then (k, v) # ps else p # map_set k v ps)"

definition getCurrentTable :: "Visitor \<Rightarrow> CellTable" where
  "getCurrentTable s =
     (case currentTable s of
        None \<Rightarrow> initialTable s
      | Some n \<Rightarrow> (case map_of (tables s) n of None \<Rightarrow> [] | Some t \<Rightarrow> t))"

definition setCurrentTable :: "CellTable \<Rightarrow> Visitor \<Rightarrow> Visitor" where
  "setCurrentTable t s =
     (case currentTable s of
        None \<Rightarrow> s\<lparr> initialTable := t \<rparr>
      | Some n \<Rightarrow> s\<lparr> tables := map_set n t (tables s) \<rparr>)"

text \<open>
  \<open>updateCurrentModule\<close>: with a non-empty module stack the current table becomes the
  table of the module on top, created as a copy of the entries of the default map (the
  same \<open>DefinitionTable\<close> objects) when the module has none yet.
\<close>

definition updateCurrentModule :: "Visitor \<Rightarrow> Visitor" where
  "updateCurrentModule s =
     (if moduleStack s \<noteq> [] then
        (let name = last (moduleStack s) in
         case map_of (tables s) name of
           Some moduleTable \<Rightarrow> s\<lparr> currentModuleName := name, currentTable := Some name \<rparr>
         | None \<Rightarrow> s\<lparr> currentModuleName := name,
                        tables := tables s @ [(name, visitorDefaults s)],
                        currentTable := Some name \<rparr>)
      else s)"

text \<open>\<open>valueDefinitions.push\<close> and \<open>typeDefinitions.push\<close> on the object at an address.\<close>

definition pushValueDefinition :: "nat \<Rightarrow> ValueDefinition \<Rightarrow> Visitor \<Rightarrow> Visitor" where
  "pushValueDefinition a d s =
     s\<lparr> heap := (heap s)[a := (heap s ! a)\<lparr> valueDefinitions := valueDefinitions (heap s ! a) @ [d] \<rparr>] \<rparr>"

definition pushTypeDefinition :: "nat \<Rightarrow> TypeDefinition \<Rightarrow> Visitor \<Rightarrow> Visitor" where
  "pushTypeDefinition a d s =
     s\<lparr> heap := (heap s)[a := (heap s ! a)\<lparr> typeDefinitions := typeDefinitions (heap s ! a) @ [d] \<rparr>] \<rparr>"

text \<open>
  \<open>ensureEntry\<close> is \<open>if (!currentTable.has(identifier)) currentTable.set(identifier,
  emptyTable())\<close> followed by \<open>currentTable.get(identifier)\<close>: it returns the address of
  the identifier's object, a new object when the table had none.
\<close>

definition ensureEntry :: "string \<Rightarrow> Visitor \<Rightarrow> nat \<times> Visitor" where
  "ensureEntry identifier s =
     (case map_of (getCurrentTable s) identifier of
        Some a \<Rightarrow> (a, s)
      | None \<Rightarrow>
          (length (heap s),
           setCurrentTable (getCurrentTable s @ [(identifier, length (heap s))])
             (s\<lparr> heap := heap s @ [emptyTable] \<rparr>)))"

definition collectValueDefinition :: "string \<Rightarrow> string \<Rightarrow> int option \<Rightarrow> int option \<Rightarrow> Visitor \<Rightarrow> Visitor" where
  "collectValueDefinition kind identifier reference scope s =
     (if identifier = ''_'' then s
      else (case ensureEntry identifier s of (a, s1) \<Rightarrow>
              pushValueDefinition a
                \<lparr> vd_kind = kind, vd_identifier = identifier,
                  vd_reference = reference, vd_scope = scope \<rparr> s1))"

definition collectTypeDefinition :: "string \<Rightarrow> TntType option \<Rightarrow> int option \<Rightarrow> Visitor \<Rightarrow> Visitor" where
  "collectTypeDefinition identifier type reference s =
     (case ensureEntry identifier s of (a, s1) \<Rightarrow>
        pushTypeDefinition a
          \<lparr> td_identifier = identifier, td_type = type, td_reference = reference \<rparr> s1)"

text \<open>
  \<open>!d.scope\<close>: the scope is undefined or the bigint zero (the only falsy bigint).
\<close>

definition noScope :: "ValueDefinition \<Rightarrow> bool" where
  "noScope d = (vd_scope d = None \<or> vd_scope d = Some 0)"

definition enterModuleDef :: "string \<Rightarrow> Visitor \<Rightarrow> Visitor" where
  "enterModuleDef name s = updateCurrentModule (s\<lparr> moduleStack := moduleStack s @ [name] \<rparr>)"

text \<open>
  \<open>exitModuleDef\<close> copies the entries of the current table into a new map, pops the
  module stack and, inside an enclosing module, walks the copied entries in order: the
  definitions of each object that have no scope, read when the entry is reached, are
  collected into the (now current) enclosing table under the prefixed identifier, with
  their kind and reference and without scope. Last the module's own name is collected.
\<close>

definition copyDefinitions :: "string \<Rightarrow> nat \<Rightarrow> Visitor \<Rightarrow> Visitor" where
  "copyDefinitions name a s =
     fold (\<lambda>d. collectValueDefinition (vd_kind d) (name @ ''::'' @ vd_identifier d) (vd_reference d) None)
       (filter noScope (valueDefinitions (heap s ! a))) s"

definition exitModuleDef :: "string \<Rightarrow> int \<Rightarrow> Visitor \<Rightarrow> Visitor" where
  "exitModuleDef name i s =
     (let innerModuleTable = getCurrentTable s;
          s1 = updateCurrentModule (s\<lparr> moduleStack := butlast (moduleStack s) \<rparr>)
      in if moduleStack s1 \<noteq> [] then
           collectValueDefinition ''module'' name (Some i) None
             (fold (\<lambda>entry. copyDefinitions name (snd entry)) innerModuleTable s1)
         else s1)"

definition enterVar :: "string \<Rightarrow> string \<Rightarrow> int \<Rightarrow> Visitor \<Rightarrow> Visitor" where
  "enterVar kind name i s = collectValueDefinition kind name (Some i) None s"

definition enterConst :: "string \<Rightarrow> string \<Rightarrow> int \<Rightarrow> Visitor \<Rightarrow> Visitor" where
  "enterConst kind name i s = collectValueDefinition kind name (Some i) None s"

definition enterOpDef :: "string \<Rightarrow> string \<Rightarrow> int \<Rightarrow> Visitor \<Rightarrow> Visitor" where
  "enterOpDef kind name i s =
     (if scopeStack s \<noteq> [] then
        collectValueDefinition kind name (Some i) (Some (last (scopeStack s))) s
      else collectValueDefinition kind name (Some i) None s)"

definition enterTypeDef :: "string \<Rightarrow> TntType option \<Rightarrow> int \<Rightarrow> Visitor \<Rightarrow> Visitor" where
  "enterTypeDef name type i s = collectTypeDefinition name type (Some i) s"

definition enterAssume :: "string \<Rightarrow> int \<Rightarrow> Visitor \<Rightarrow> Visitor" where
  "enterAssume name i s = collectValueDefinition ''assumption'' name (Some i) None s"

definition enterLambda :: "string list \<Rightarrow> int \<Rightarrow> Visitor \<Rightarrow> Visitor" where
  "enterLambda params i s =
     fold (\<lambda>p. collectValueDefinition ''param'' p (Some i) (Some i)) params s"

definition enterLet :: "int \<Rightarrow> Visitor \<Rightarrow> Visitor" where
  "enterLet i s = s\<lparr> scopeStack := scopeStack s @ [i] \<rparr>"

definition exitLet :: "Visitor \<Rightarrow> Visitor" where
  "exitLet s = s\<lparr> scopeStack := butlast (scopeStack s) \<rparr>"

text \<open>
  \<open>collectDefinitions\<close> creates a visitor over a new \<open>defaultDefinitions()\<close>, hands it to
  \<open>walkModule\<close> and returns \<open>visitor.tables\<close>. The walk reaches the visitor only through
  the callbacks of the class, so a run of the collector is the sequence of the callbacks
  made, each with the fields of the IR node that the callback reads: the name of the
  module, and the id of the declaration, for a nested module; kind, name and id for a
  variable, a constant and an operator definition; name, type and id for a type
  declaration; name and id for an assumption; parameters and id for a lambda; the id for
  a let.
\<close>

datatype Callback =
    EnterModuleDef string
  | ExitModuleDef string int
  | EnterVar string string int
  | EnterConst string string int
  | EnterOpDef string string int
  | EnterTypeDef string "TntType option" int
  | EnterAssume string int
  | EnterLambda "string list" int
  | EnterLet int
  | ExitLet

fun call :: "Callback \<Rightarrow> Visitor \<Rightarrow> Visitor" where
  "call (EnterModuleDef name) s = enterModuleDef name s"
| "call (ExitModuleDef name i) s = exitModuleDef name i s"
| "call (EnterVar kind name i) s = enterVar kind name i s"
| "call (EnterConst kind name i) s = enterConst kind name i s"
| "call (EnterOpDef kind name i) s = enterOpDef kind name i s"
| "call (EnterTypeDef name type i) s = enterTypeDef name type i s"
| "call (EnterAssume name i) s = enterAssume name i s"
| "call (EnterLambda params i) s = enterLambda params i s"
| "call (EnterLet i) s = enterLet i s"
| "call ExitLet s = exitLet s"

definition run :: "Callback list \<Rightarrow> Visitor \<Rightarrow> Visitor" where
  "run calls s = fold call calls s"

text \<open>
  \<open>tablesOf\<close> reads \<open>visitor.tables\<close> with every address replaced by the object it
  points to; \<open>collected calls\<close> is what \<open>collectDefinitions\<close> returns when the walk makes
  the callbacks \<open>calls\<close>.
\<close>

definition derefTable :: "DefinitionTable list \<Rightarrow> CellTable \<Rightarrow> (string \<times> DefinitionTable) list" where
  "derefTable h t = map (\<lambda>(k, a). (k, h ! a)) t"

definition tablesOf :: "Visitor \<Rightarrow> (string \<times> (string \<times> DefinitionTable) list) list" where
  "tablesOf s = map (\<lambda>(name, t). (name, derefTable (heap s) t)) (tables s)"

definition collected :: "Callback list \<Rightarrow> (string \<times> (string \<times> DefinitionTable) list) list" where
  "collected calls = tablesOf (run calls newVisitor)"

definition builtinDefinition :: "string \<Rightarrow> ValueDefinition" where
  "builtinDefinition n = \<lparr> vd_kind = ''def'', vd_identifier = n, vd_reference = None, vd_scope = None \<rparr>"
text \<open>The name of the type declaration a callback enters, if it enters one.\<close>

fun typedef_name :: "Callback \<Rightarrow> string option" where
  "typedef_name (EnterTypeDef name type i) = Some name"
| "typedef_name c = None"

subsection \<open>Invariants of the visitor\<close>

text \<open>
  The objects of the built-in identifiers are the first objects of the heap, and each
  still holds the definitions it was created with.
\<close>

definition cells_ok :: "DefinitionTable list \<Rightarrow> bool" where
  "cells_ok h =
     (length builtinCells \<le> length h \<and>
      (\<forall>i < length builtinCells.
         set (valueDefinitions (builtinCells ! i)) \<subseteq> set (valueDefinitions (h ! i))))"

text \<open>
  A lookup table maps every built-in identifier to the object that
  \<open>defaultDefinitions()\<close> created for it, and holds only addresses below \<open>n\<close>.
\<close>

definition table_ok :: "nat \<Rightarrow> CellTable \<Rightarrow> bool" where
  "table_ok n t =
     ((\<forall>b \<in> set builtinIdentifiers. map_of t b = map_of defaultDefinitions b) \<and>
      (\<forall>(k, a) \<in> set t. a < n))"

text \<open>Every table of the visitor is such a table, for the size \<open>n\<close> of the heap.\<close>

definition tables_ok :: "nat \<Rightarrow> Visitor \<Rightarrow> bool" where
  "tables_ok n s =
     ((\<forall>(m, t) \<in> set (tables s). table_ok n t) \<and>
      (\<forall>(k, a) \<in> set (initialTable s). a < n))"

text \<open>
  The current table, when it is the table of a module, is stored in \<open>tables\<close>; inside
  a module it is the table of the module on top of the stack.
\<close>

definition current_ok :: "Visitor \<Rightarrow> bool" where
  "current_ok s =
     ((\<forall>n. currentTable s = Some n \<longrightarrow> map_of (tables s) n \<noteq> None) \<and>
      (moduleStack s \<noteq> [] \<longrightarrow> currentTable s = Some (last (moduleStack s))))"

text \<open>The invariant of every state the callbacks reach from a new visitor.\<close>

definition visitor_ok :: "Visitor \<Rightarrow> bool" where
  "visitor_ok s =
     (visitorDefaults s = defaultDefinitions \<and> cells_ok (heap s) \<and>
      tables_ok (length (heap s)) s \<and> current_ok s)"




section \<open>Properties of the flattener\<close>

lemma flattenDefs_no_instance:
  "\<forall>d \<in> set ds. \<not> is_instance d \<Longrightarrow> flattenDefs modules ds acc ctx = Inr (acc @ ds, ctx)"
proof (induction ds arbitrary: acc)
  case Nil
  then show ?case by simp
next
  case (Cons d ds)
  then show ?case by (cases d) simp_all
qed

text \<open>
  C9. Flattening a module that has no declaration of kind instance returns that very
  module: every declaration is unchanged, with its id, in the same order.
\<close>

theorem flatten_instance_free_noop:
  assumes "\<forall>d \<in> set (mod_defs m). \<not> is_instance d"
  shows "flatten dflt m tbl modules = Inr m"
  using flattenDefs_no_instance [OF assms, of modules "[]"]
  by (simp add: flatten_def)

theorem flatten_instance_free_noop_witness:
  "list_all (\<lambda>d. \<not> is_instance d) (mod_defs ex_M) \<and> flatten 0 ex_M ex_table ex_modules = Inr ex_M"
proof -
  have h: "\<forall>d \<in> set (mod_defs ex_M). \<not> is_instance d"
    by (simp add: ex_M_def)
  show ?thesis
    using flatten_instance_free_noop [OF h, of 0 ex_table ex_modules]
    by (simp add: ex_M_def)
qed

lemma lastId_undefined: "lastId modules = None"
  by (simp add: lastId_def js_index_def)

lemma flatten_seed: "newIdGenerator dflt (lastId modules) = dflt"
  by (simp add: lastId_undefined newIdGenerator_def)

text \<open>
  C1. The generator is not seeded from the modules: index \<open>-1\<close> of the sorted id array
  is undefined, so the counter starts from the generator's default whatever ids the
  modules hold. With the default 0, flattening \<open>Main\<close> mints the ids 1 and 2 for the
  definition \<open>N::a\<close> and its annotation, the ids of the constant \<open>a\<close> of \<open>M\<close> and of its
  type.
\<close>

theorem flatten_id_collision:
  "flatten 0 ex_Main ex_table ex_modules =
     Inr (ex_Main\<lparr> mod_defs :=
       [DefOp (OpDef ''N::a'' ''pureval'' (ExInt 5 5) (Some (TInt (Some 1))) 2)] \<rparr>)
   \<and> mod_defs ex_M = [DefConst ''a'' (TInt (Some 1)) 2]
   \<and> lastId ex_modules = None"
  by (simp add: flatten_def lastId_undefined newIdGenerator_def ex_Main_def ex_table_def
      ex_modules_def ex_M_def nextId_def namespaced_def)
subsection \<open>The traversal and its errors\<close>

lemma env_nextId [simp]: "env (snd (nextId c)) = env c"
  by (simp add: env_def nextId_def)

lemma sequenceS_env:
  "(\<And>m c. m \<in> set ms \<Longrightarrow> env (snd (m c)) = env c) \<Longrightarrow> env (snd (sequenceS ms c)) = env c"
proof (induction ms arbitrary: c)
  case Nil then show ?case by simp
next
  case (Cons m ms)
  have a: "env (snd (m c)) = env c" using Cons.prems by simp
  have b: "env (snd (sequenceS ms (snd (m c)))) = env (snd (m c))"
    using Cons.IH Cons.prems by simp
  show ?case using a b by (simp add: split_beta)
qed

lemma addNamespaceToType_env [simp]:
  "env (snd (addNamespaceToType name t c)) = env c"
  "env (snd (addNamespaceToRow name r c)) = env c"
proof (induction t and r arbitrary: c and c)
  case (TOper args res i)
  have "env (snd (sequenceS (map (addNamespaceToType name) args) (snd (nextId c)))) = env (snd (nextId c))"
    by (rule sequenceS_env) (auto simp: TOper.IH)
  then show ?case by (simp add: split_beta TOper.IH)
next
  case (TUnion tag records i)
  show ?case
    apply (simp add: split_beta)
    apply (subst sequenceS_env)
     apply (auto simp: split_beta TUnion.IH)
    done
next
  case (RowFields fs other)
  show ?case
    apply (simp add: split_beta)
    apply (subst sequenceS_env)
     apply (auto simp: split_beta RowFields.IH)
    done
qed (simp_all add: split_beta)











lemma outcome_InlD:
  "outcome E rs r \<Longrightarrow> r = Inl err \<Longrightarrow>
     \<exists>n i. (n, i) \<in> set rs \<and> unresolved E (n, i) \<and> err = MissingDefinition i n"
  by (auto simp: outcome_def find_Some_iff split: option.splits)

lemma outcome_env: "outcome E rs r \<Longrightarrow> r = Inr (x, c') \<Longrightarrow> env c' = E"
  by (auto simp: outcome_def split: option.splits)



subsection \<open>The flattener against its specification\<close>








lemma opdef_name_erase [simp]: "opdef_name (erase_opdef d) = opdef_name d"
  by (cases d) simp

lemma def_name_erase [simp]: "def_name (erase_def d) = def_name d"
  by (cases d) simp_all



lemma is_instance_erase [simp]: "is_instance (erase_def d) = is_instance d"
  by (cases d) simp_all





































subsection \<open>What flattening returns and when it throws\<close>







section \<open>Properties of the definitions collector\<close>

lemma collectValueDefinition_preserves:
  assumes entry: "\<And>s k. P s \<Longrightarrow> k \<noteq> ''_'' \<Longrightarrow> P (snd (ensureEntry k s))"
    and pushV: "\<And>s a d. P s \<Longrightarrow> vd_identifier d \<noteq> ''_'' \<Longrightarrow> P (pushValueDefinition a d s)"
    and "P s"
  shows "P (collectValueDefinition kind identifier reference scope s)"
proof (cases "identifier = ''_''")
  case True
  then show ?thesis using assms(3) by (simp add: collectValueDefinition_def)
next
  case False
  obtain a s1 where e: "ensureEntry identifier s = (a, s1)" by (cases "ensureEntry identifier s")
  have "P s1" using entry [OF assms(3) False] e by simp
  then show ?thesis using False e by (simp add: collectValueDefinition_def pushV)
qed

lemma fold_preserves:
  assumes "\<And>x s. P s \<Longrightarrow> P (f x s)" and "P s"
  shows "P (fold f xs s)"
  using assms(2) by (induction xs arbitrary: s) (simp_all add: assms(1))

lemma copyDefinitions_preserves:
  assumes cv: "\<And>kind identifier reference scope s. P s \<Longrightarrow>
      P (collectValueDefinition kind identifier reference scope s)"
    and "P s"
  shows "P (copyDefinitions name a s)"
  unfolding copyDefinitions_def
proof (rule fold_preserves [where P = P])
  show "P s" by fact
  show "P (collectValueDefinition (vd_kind x) (name @ ''::'' @ vd_identifier x) (vd_reference x) None s)"
    if "P s" for x s using that by (rule cv)
qed

lemma exitModuleDef_preserves:
  assumes leave: "\<And>s. P s \<Longrightarrow> P (updateCurrentModule (s\<lparr> moduleStack := butlast (moduleStack s) \<rparr>))"
    and cv: "\<And>kind identifier reference scope s. P s \<Longrightarrow>
      P (collectValueDefinition kind identifier reference scope s)"
    and "P s"
  shows "P (exitModuleDef name i s)"
proof -
  let ?s1 = "updateCurrentModule (s\<lparr> moduleStack := butlast (moduleStack s) \<rparr>)"
  have 1: "P ?s1" using leave assms(3) .
  have 2: "P (fold (\<lambda>entry. copyDefinitions name (snd entry)) (getCurrentTable s) ?s1)"
  proof (rule fold_preserves [where P = P])
    show "P ?s1" by fact
    show "P (copyDefinitions name (snd x) s)" if "P s" for x s
      using cv that by (rule copyDefinitions_preserves)
  qed
  have 3: "P (collectValueDefinition ''module'' name (Some i) None
             (fold (\<lambda>entry. copyDefinitions name (snd entry)) (getCurrentTable s) ?s1))"
    using 2 by (rule cv)
  show ?thesis using 1 3 by (simp add: exitModuleDef_def Let_def)
qed

lemma call_preserves:
  assumes enter: "\<And>s n. P s \<Longrightarrow> P (updateCurrentModule (s\<lparr> moduleStack := moduleStack s @ [n] \<rparr>))"
    and leave: "\<And>s. P s \<Longrightarrow> P (updateCurrentModule (s\<lparr> moduleStack := butlast (moduleStack s) \<rparr>))"
    and entry: "\<And>s k. P s \<Longrightarrow> k \<noteq> ''_'' \<Longrightarrow> P (snd (ensureEntry k s))"
    and pushV: "\<And>s a d. P s \<Longrightarrow> vd_identifier d \<noteq> ''_'' \<Longrightarrow> P (pushValueDefinition a d s)"
    and tdef: "\<And>s n ty r. P s \<Longrightarrow> T n \<Longrightarrow> P (collectTypeDefinition n ty r s)"
    and scope: "\<And>s f. P s \<Longrightarrow> P (s\<lparr> scopeStack := f \<rparr>)"
    and "P s" and "\<And>n. typedef_name c = Some n \<Longrightarrow> T n"
  shows "P (call c s)"
proof -
  have cv: "P (collectValueDefinition kind ident reference scope s)" if "P s"
    for kind ident reference scope s
    using entry pushV that by (rule collectValueDefinition_preserves)
  show ?thesis
  proof (cases c)
    case (EnterModuleDef name)
    then show ?thesis using enter assms(7) by (simp add: enterModuleDef_def)
  next
    case (ExitModuleDef name i)
    then show ?thesis using exitModuleDef_preserves [where P = P, OF leave cv assms(7)] by simp
  next
    case (EnterVar kind name i)
    then show ?thesis using cv [OF assms(7)] by (simp add: enterVar_def)
  next
    case (EnterConst kind name i)
    then show ?thesis using cv [OF assms(7)] by (simp add: enterConst_def)
  next
    case (EnterOpDef kind name i)
    then show ?thesis using cv [OF assms(7)] by (simp add: enterOpDef_def)
  next
    case (EnterTypeDef name type i)
    then show ?thesis using tdef [OF assms(7)] assms(8) by (simp add: enterTypeDef_def)
  next
    case (EnterAssume name i)
    then show ?thesis using cv [OF assms(7)] by (simp add: enterAssume_def)
  next
    case (EnterLambda params i)
    have "P (fold (\<lambda>p. collectValueDefinition ''param'' p (Some i) (Some i)) params s)"
    proof (rule fold_preserves [where P = P])
      show "P s" by fact
      show "P (collectValueDefinition ''param'' x (Some i) (Some i) s)" if "P s" for x s
        using that by (rule cv)
    qed
    then show ?thesis using EnterLambda by (simp add: enterLambda_def)
  next
    case (EnterLet i)
    then show ?thesis using scope [OF assms(7)] by (simp add: enterLet_def)
  next
    case ExitLet
    then show ?thesis using scope [OF assms(7)] by (simp add: exitLet_def)
  qed
qed

lemma run_preserves:
  assumes enter: "\<And>s n. P s \<Longrightarrow> P (updateCurrentModule (s\<lparr> moduleStack := moduleStack s @ [n] \<rparr>))"
    and leave: "\<And>s. P s \<Longrightarrow> P (updateCurrentModule (s\<lparr> moduleStack := butlast (moduleStack s) \<rparr>))"
    and entry: "\<And>s k. P s \<Longrightarrow> k \<noteq> ''_'' \<Longrightarrow> P (snd (ensureEntry k s))"
    and pushV: "\<And>s a d. P s \<Longrightarrow> vd_identifier d \<noteq> ''_'' \<Longrightarrow> P (pushValueDefinition a d s)"
    and tdef: "\<And>s n ty r. P s \<Longrightarrow> T n \<Longrightarrow> P (collectTypeDefinition n ty r s)"
    and scope: "\<And>s f. P s \<Longrightarrow> P (s\<lparr> scopeStack := f \<rparr>)"
    and "P s" and "\<And>c n. c \<in> set calls \<Longrightarrow> typedef_name c = Some n \<Longrightarrow> T n"
  shows "P (run calls s)"
  using assms(7,8)
proof (induction calls arbitrary: s)
  case Nil
  then show ?case by (simp add: run_def)
next
  case (Cons c calls)
  have "P (call c s)"
  proof (rule call_preserves [where P = P and T = T])
    show "P s" by (rule Cons.prems(1))
    show "T n" if "typedef_name c = Some n" for n using Cons.prems(2) [of c n] that by simp
  qed (rule enter leave entry pushV tdef scope; assumption)+
  then have "P (run calls (call c s))"
  proof (rule Cons.IH)
    show "T n" if "c' \<in> set calls" "typedef_name c' = Some n" for c' n
      using Cons.prems(2) [of c' n] that by simp
  qed
  then show ?case by (simp add: run_def)
qed

lemma length_builtinCells: "length builtinCells = length builtinIdentifiers"
  by (simp add: builtinCells_def)

lemma defaultDefinitions_Some:
  assumes "map_of defaultDefinitions b = Some a"
  shows "a < length builtinCells \<and> builtinIdentifiers ! a = b"
proof -
  from assms have "(b, a) \<in> set (zip builtinIdentifiers [0 ..< length builtinIdentifiers])"
    by (auto simp: defaultDefinitions_def dest: map_of_SomeD)
  then show ?thesis by (auto simp: in_set_zip length_builtinCells)
qed

lemma defaultDefinitions_builtin:
  assumes "b \<in> set builtinIdentifiers"
  shows "\<exists>a. map_of defaultDefinitions b = Some a"
proof -
  have "map fst (zip builtinIdentifiers [0 ..< length builtinIdentifiers]) = builtinIdentifiers"
    by (rule map_fst_zip) simp
  then have "fst ` set defaultDefinitions = set builtinIdentifiers"
    unfolding defaultDefinitions_def by (metis set_map)
  then have "b \<in> fst ` set defaultDefinitions" using assms by simp
  then show ?thesis by (cases "map_of defaultDefinitions b") (auto simp: map_of_eq_None_iff)
qed

lemma defaultDefinitions_range:
  "(k, a) \<in> set defaultDefinitions \<Longrightarrow> a < length builtinCells"
  by (auto simp: defaultDefinitions_def in_set_zip length_builtinCells)

lemma set_map_set: "set (map_set k v ps) \<subseteq> insert (k, v) (set ps)"
  by (induction ps) auto

lemma map_of_map_set: "map_of (map_set k v ps) = (map_of ps)(k \<mapsto> v)"
  by (induction ps) (auto simp: fun_eq_iff)

lemma table_ok_mono: "table_ok n t \<Longrightarrow> n \<le> n' \<Longrightarrow> table_ok n' t"
  by (fastforce simp: table_ok_def)

lemma tables_ok_mono: "tables_ok n s \<Longrightarrow> n \<le> n' \<Longrightarrow> tables_ok n' s"
  by (fastforce simp: tables_ok_def intro: table_ok_mono)

lemma cells_ok_builtinCells: "cells_ok builtinCells"
  by (simp add: cells_ok_def)

lemma cells_ok_update:
  assumes "cells_ok h" and "a < length h \<Longrightarrow> set (valueDefinitions (h ! a)) \<subseteq> set (valueDefinitions c)"
  shows "cells_ok (h[a := c])"
  unfolding cells_ok_def
proof (intro conjI allI impI)
  show "length builtinCells \<le> length (h[a := c])" using assms(1) by (simp add: cells_ok_def)
  fix i assume i: "i < length builtinCells"
  then have il: "i < length h" using assms(1) by (simp add: cells_ok_def)
  have old: "set (valueDefinitions (builtinCells ! i)) \<subseteq> set (valueDefinitions (h ! i))"
    using assms(1) i by (simp add: cells_ok_def)
  show "set (valueDefinitions (builtinCells ! i)) \<subseteq> set (valueDefinitions (h[a := c] ! i))"
  proof (cases "i = a")
    case True
    then show ?thesis using old assms(2) il by auto
  next
    case False
    then show ?thesis using old by simp
  qed
qed

lemma cells_ok_append: "cells_ok h \<Longrightarrow> cells_ok (h @ [c])"
  by (auto simp: cells_ok_def nth_append)

lemma visitor_ok_newVisitor: "visitor_ok newVisitor"
  by (simp add: visitor_ok_def newVisitor_def cells_ok_builtinCells tables_ok_def current_ok_def)

lemma visitor_ok_scope: "visitor_ok s \<Longrightarrow> visitor_ok (s\<lparr> scopeStack := f \<rparr>)"
  by (simp add: visitor_ok_def tables_ok_def current_ok_def)

lemma visitor_ok_heap_update:
  assumes "visitor_ok s" and "a < length (heap s) \<Longrightarrow> set (valueDefinitions (heap s ! a)) \<subseteq> set (valueDefinitions c)"
  shows "visitor_ok (s\<lparr> heap := (heap s)[a := c] \<rparr>)"
  using assms cells_ok_update [of "heap s" a c]
  by (simp add: visitor_ok_def tables_ok_def current_ok_def)

lemma visitor_ok_pushValueDefinition: "visitor_ok s \<Longrightarrow> visitor_ok (pushValueDefinition a d s)"
  unfolding pushValueDefinition_def by (rule visitor_ok_heap_update) auto

lemma visitor_ok_pushTypeDefinition: "visitor_ok s \<Longrightarrow> visitor_ok (pushTypeDefinition a d s)"
  unfolding pushTypeDefinition_def by (rule visitor_ok_heap_update) auto

lemma visitor_ok_getCurrentTable:
  assumes "visitor_ok s"
  shows "\<forall>(k, a) \<in> set (getCurrentTable s). a < length (heap s)"
    and "currentTable s = Some n \<Longrightarrow> table_ok (length (heap s)) (getCurrentTable s)"
proof -
  have tab: "table_ok (length (heap s)) t" if "map_of (tables s) m = Some t" for m t
  proof -
    from that have "(m, t) \<in> set (tables s)" by (rule map_of_SomeD)
    then show ?thesis using assms by (auto simp: visitor_ok_def tables_ok_def)
  qed
  show "\<forall>(k, a) \<in> set (getCurrentTable s). a < length (heap s)"
  proof (cases "currentTable s")
    case None
    then show ?thesis using assms by (simp add: getCurrentTable_def visitor_ok_def tables_ok_def)
  next
    case (Some m)
    then obtain t where t: "map_of (tables s) m = Some t"
      using assms by (auto simp: visitor_ok_def current_ok_def)
    then show ?thesis using Some tab [OF t] by (simp add: getCurrentTable_def table_ok_def)
  qed
  show "table_ok (length (heap s)) (getCurrentTable s)" if c: "currentTable s = Some n"
  proof -
    obtain t where t: "map_of (tables s) n = Some t"
      using assms c by (auto simp: visitor_ok_def current_ok_def)
    then show ?thesis using c tab [OF t] by (simp add: getCurrentTable_def)
  qed
qed

lemma visitor_ok_ensureEntry:
  assumes "visitor_ok s"
  shows "visitor_ok (snd (ensureEntry k s))"
proof (cases "map_of (getCurrentTable s) k")
  case (Some a)
  then show ?thesis using assms by (simp add: ensureEntry_def)
next
  case None
  let ?n = "Suc (length (heap s))"
  let ?t = "getCurrentTable s @ [(k, length (heap s))]"
  let ?s0 = "s\<lparr> heap := heap s @ [emptyTable] \<rparr>"
  have e: "snd (ensureEntry k s) = setCurrentTable ?t ?s0"
    using None by (simp add: ensureEntry_def)
  have vd: "visitorDefaults s = defaultDefinitions" and co: "current_ok s"
    and ce: "cells_ok (heap s @ [emptyTable])"
    using assms by (simp_all add: visitor_ok_def cells_ok_append)
  have old: "tables_ok ?n s"
    using assms by (auto simp: visitor_ok_def intro: tables_ok_mono)
  have addr: "\<forall>(k, a) \<in> set ?t. a < ?n"
    using visitor_ok_getCurrentTable(1) [OF assms] by auto
  show ?thesis
  proof (cases "currentTable s")
    case None
    have "setCurrentTable ?t ?s0 = ?s0\<lparr> initialTable := ?t \<rparr>"
      using None by (simp add: setCurrentTable_def)
    moreover have "visitor_ok (?s0\<lparr> initialTable := ?t \<rparr>)"
      using vd co ce old addr by (simp add: visitor_ok_def tables_ok_def current_ok_def)
    ultimately show ?thesis using e by simp
  next
    case (Some n)
    have tk: "table_ok (length (heap s)) (getCurrentTable s)"
      using visitor_ok_getCurrentTable(2) [OF assms Some] .
    have new: "table_ok ?n ?t"
      unfolding table_ok_def
    proof (intro conjI ballI)
      fix b assume b: "b \<in> set builtinIdentifiers"
      then obtain a where a: "map_of defaultDefinitions b = Some a"
        using defaultDefinitions_builtin by blast
      then have "map_of (getCurrentTable s) b = Some a" using tk b by (simp add: table_ok_def)
      then show "map_of ?t b = map_of defaultDefinitions b"
        using a by (simp add: map_add_Some_iff)
    next
      fix x assume "x \<in> set ?t"
      then show "case x of (k, a) \<Rightarrow> a < ?n" using addr by blast
    qed
    have s': "setCurrentTable ?t ?s0 = ?s0\<lparr> tables := map_set n ?t (tables s) \<rparr>"
      using Some by (simp add: setCurrentTable_def)
    have tabs: "\<forall>(m, t) \<in> set (map_set n ?t (tables s)). table_ok ?n t"
      using set_map_set [of n ?t "tables s"] new old by (auto simp: tables_ok_def)
    have "tables_ok ?n (?s0\<lparr> tables := map_set n ?t (tables s) \<rparr>)"
      using tabs old by (simp add: tables_ok_def)
    moreover have "current_ok (?s0\<lparr> tables := map_set n ?t (tables s) \<rparr>)"
      using co Some by (simp add: current_ok_def map_of_map_set)
    ultimately have "visitor_ok (?s0\<lparr> tables := map_set n ?t (tables s) \<rparr>)"
      using vd ce by (simp add: visitor_ok_def)
    then show ?thesis using e s' by simp
  qed
qed

lemma visitor_ok_collectTypeDefinition:
  assumes "visitor_ok s"
  shows "visitor_ok (collectTypeDefinition n ty r s)"
proof -
  obtain a s1 where e: "ensureEntry n s = (a, s1)" by (cases "ensureEntry n s")
  have "visitor_ok s1" using visitor_ok_ensureEntry [OF assms, of n] e by simp
  then show ?thesis using e by (simp add: collectTypeDefinition_def visitor_ok_pushTypeDefinition)
qed

lemma visitor_ok_updateCurrentModule:
  assumes "visitorDefaults s = defaultDefinitions" and "cells_ok (heap s)"
    and "tables_ok (length (heap s)) s"
    and "\<forall>n. currentTable s = Some n \<longrightarrow> map_of (tables s) n \<noteq> None"
  shows "visitor_ok (updateCurrentModule s)"
proof (cases "moduleStack s = []")
  case True
  then show ?thesis using assms by (simp add: updateCurrentModule_def visitor_ok_def current_ok_def)
next
  case False
  let ?n = "last (moduleStack s)"
  show ?thesis
  proof (cases "map_of (tables s) ?n")
    case (Some t)
    then have "updateCurrentModule s = s\<lparr> currentModuleName := ?n, currentTable := Some ?n \<rparr>"
      using False by (simp add: updateCurrentModule_def Let_def)
    moreover have "visitor_ok (s\<lparr> currentModuleName := ?n, currentTable := Some ?n \<rparr>)"
      using assms Some False by (simp add: visitor_ok_def tables_ok_def current_ok_def)
    ultimately show ?thesis by simp
  next
    case None
    then have u: "updateCurrentModule s =
        s\<lparr> currentModuleName := ?n, tables := tables s @ [(?n, defaultDefinitions)],
           currentTable := Some ?n \<rparr>"
      using False assms(1) by (simp add: updateCurrentModule_def Let_def)
    have "\<forall>(k, a) \<in> set defaultDefinitions. a < length (heap s)"
      using defaultDefinitions_range assms(2) by (fastforce simp: cells_ok_def)
    then have d: "table_ok (length (heap s)) defaultDefinitions"
      by (simp add: table_ok_def)
    have "tables_ok (length (heap s)) (s\<lparr> currentModuleName := ?n,
           tables := tables s @ [(?n, defaultDefinitions)], currentTable := Some ?n \<rparr>)"
      using assms(3) d by (auto simp: tables_ok_def)
    moreover have "current_ok (s\<lparr> currentModuleName := ?n,
           tables := tables s @ [(?n, defaultDefinitions)], currentTable := Some ?n \<rparr>)"
      using False by (auto simp: current_ok_def)
    ultimately have "visitor_ok (s\<lparr> currentModuleName := ?n,
           tables := tables s @ [(?n, defaultDefinitions)], currentTable := Some ?n \<rparr>)"
      using assms(1,2) by (simp add: visitor_ok_def)
    then show ?thesis using u by simp
  qed
qed

lemma visitor_ok_enter: "visitor_ok s \<Longrightarrow> visitor_ok (updateCurrentModule (s\<lparr> moduleStack := moduleStack s @ [n] \<rparr>))"
  by (rule visitor_ok_updateCurrentModule) (simp_all add: visitor_ok_def tables_ok_def current_ok_def)

lemma visitor_ok_leave: "visitor_ok s \<Longrightarrow> visitor_ok (updateCurrentModule (s\<lparr> moduleStack := butlast (moduleStack s) \<rparr>))"
  by (rule visitor_ok_updateCurrentModule) (simp_all add: visitor_ok_def tables_ok_def current_ok_def)

lemma visitor_ok_run: "visitor_ok s \<Longrightarrow> visitor_ok (run calls s)"
proof (rule run_preserves [where P = visitor_ok and T = "\<lambda>n. True"])
qed (simp_all add: visitor_ok_enter visitor_ok_leave visitor_ok_ensureEntry visitor_ok_pushValueDefinition
      visitor_ok_collectTypeDefinition visitor_ok_scope)

lemma visitor_ok_reachable: "visitor_ok (run calls newVisitor)"
  using visitor_ok_newVisitor by (rule visitor_ok_run)





lemma map_of_derefTable: "map_of (derefTable h t) k = map_option ((!) h) (map_of t k)"
  by (induction t) (auto simp: derefTable_def)

lemma builtinCells_nth:
  "a < length builtinCells \<Longrightarrow>
     valueDefinitions (builtinCells ! a) = [builtinDefinition (builtinIdentifiers ! a)]"
  by (simp add: builtinCells_def builtinDefinition_def)

lemma visitor_ok_builtin_entry:
  assumes "visitor_ok s" and "(name, t) \<in> set (tables s)" and "b \<in> set builtinIdentifiers"
  shows "\<exists>a. map_of t b = Some a \<and> map_of defaultDefinitions b = Some a \<and>
           a < length (heap s) \<and> builtinDefinition b \<in> set (valueDefinitions (heap s ! a))"
proof -
  obtain a where a: "map_of defaultDefinitions b = Some a"
    using defaultDefinitions_builtin [OF assms(3)] by blast
  have r: "a < length builtinCells" "builtinIdentifiers ! a = b"
    using defaultDefinitions_Some [OF a] by simp_all
  have "table_ok (length (heap s)) t" using assms(1,2) by (auto simp: visitor_ok_def tables_ok_def)
  then have t: "map_of t b = Some a" using assms(3) a by (simp add: table_ok_def)
  have c: "cells_ok (heap s)" using assms(1) by (simp add: visitor_ok_def)
  then have "set (valueDefinitions (builtinCells ! a)) \<subseteq> set (valueDefinitions (heap s ! a))"
    using r(1) by (simp add: cells_ok_def)
  then have "builtinDefinition b \<in> set (valueDefinitions (heap s ! a))"
    using builtinCells_nth [OF r(1)] r(2) by simp
  moreover have "a < length (heap s)" using c r(1) by (simp add: cells_ok_def)
  ultimately show ?thesis using t a by blast
qed

lemma tablesOf_mem:
  assumes "(name, t) \<in> set (tablesOf s)"
  obtains t0 where "(name, t0) \<in> set (tables s)" and "t = derefTable (heap s) t0"
  using assms by (auto simp: tablesOf_def)

lemma tables_nested:
  "tables (run [EnterModuleDef ''Outer'', EnterModuleDef ''Inner''] newVisitor) =
     [(''Outer'', defaultDefinitions), (''Inner'', defaultDefinitions)]"
  by (simp add: run_def enterModuleDef_def updateCurrentModule_def newVisitor_def Let_def)











































subsection \<open>What the collected tables hold\<close>

text \<open>
  C4. Whatever callbacks the walk makes, and so for every module forest and every depth
  of nesting, each table that \<open>collectDefinitions\<close> returns has an entry for every
  identifier of the built-in registry, and that entry holds the built-in definition of
  the identifier.
\<close>

theorem collected_has_builtins:
  "\<forall>(name, t) \<in> set (collected calls). \<forall>b \<in> set builtinIdentifiers.
     \<exists>c. map_of t b = Some c \<and> builtinDefinition b \<in> set (valueDefinitions c)"
proof (intro ballI, clarify)
  fix name t b
  let ?s = "run calls newVisitor"
  assume "(name, t) \<in> set (collected calls)" and b: "b \<in> set builtinIdentifiers"
  then have "(name, t) \<in> set (tablesOf ?s)" by (simp add: collected_def)
  then obtain t0 where t0: "(name, t0) \<in> set (tables ?s)" "t = derefTable (heap ?s) t0"
    by (rule tablesOf_mem)
  from visitor_ok_builtin_entry [OF visitor_ok_reachable t0(1) b]
  obtain a where "map_of t0 b = Some a"
    "builtinDefinition b \<in> set (valueDefinitions (heap ?s ! a))" by blast
  then show "\<exists>c. map_of t b = Some c \<and> builtinDefinition b \<in> set (valueDefinitions c)"
    using t0(2) by (simp add: map_of_derefTable)
qed

text \<open>
  A module \<open>Inner\<close> nested in \<open>Outer\<close>: both tables have the built-in \<open>head\<close>.
\<close>

theorem collected_has_builtins_witness:
  "map fst (collected [EnterModuleDef ''Outer'', EnterModuleDef ''Inner'']) = [''Outer'', ''Inner''] \<and>
   list_all (\<lambda>(name, t). \<exists>c. map_of t ''head'' = Some c \<and>
                builtinDefinition ''head'' \<in> set (valueDefinitions c))
     (collected [EnterModuleDef ''Outer'', EnterModuleDef ''Inner''])"
proof -
  have "''head'' \<in> set builtinIdentifiers" by (simp add: builtinIdentifiers_def)
  then have "\<forall>(name, t) \<in> set (collected [EnterModuleDef ''Outer'', EnterModuleDef ''Inner'']).
     \<exists>c. map_of t ''head'' = Some c \<and> builtinDefinition ''head'' \<in> set (valueDefinitions c)"
    using collected_has_builtins [of "[EnterModuleDef ''Outer'', EnterModuleDef ''Inner'']"]
    by blast
  moreover have "map fst (collected [EnterModuleDef ''Outer'', EnterModuleDef ''Inner'']) =
      [''Outer'', ''Inner'']"
    by (simp add: collected_def tablesOf_def tables_nested)
  ultimately show ?thesis by (simp add: list_all_iff)
qed







end
